theory Spec2Isabelle
  imports Complex_Main "HOL-Library.Log_Nat"
begin

chapter \<open>LED voltage calculator: the mix-bin and Monte Carlo core\<close>

text \<open>
  A shallow embedding of the algorithmic core of the LED voltage calculator: the
  shortest covering interval of a discrete distribution, the bin partition, the mix-bin
  combination generator and normalizer, linear interpolation, the Monte Carlo run and
  the highest-density interval of its samples. Each definition follows the Python
  function of the same name. Python floats are modelled as real numbers, with exact
  arithmetic and comparisons and each tolerance as the rational it denotes; only linear
  interpolation, where bit-exact results are at stake, also carries the rounding of
  floating-point operations. The definitions come first, the proofs after them.
\<close>

section \<open>Common data: errors and CSV files\<close>

text \<open>
  The Python exceptions the modelled functions raise are values of \<open>py_error\<close>; a
  function that may raise returns \<open>py_error + 'a\<close>, with \<open>Inl\<close> for the exception.
\<close>

datatype py_error = FileNotFoundError | ValueError | IndexError | ZeroDivisionError

text \<open>
  A CSV file is the list of rows \<open>csv.reader\<close> yields. A field is modelled by what
  \<open>(val or "").strip()\<close> followed by \<open>float(s)\<close> makes of it: empty or blank, a number, or
  text on which \<open>float\<close> raises \<open>ValueError\<close>. A blank field reads as \<open>0.0\<close>.
\<close>

datatype cell = Blank | Num real | NonNumeric

type_synonym csv = "cell list list"

fun parse_cell :: "cell \<Rightarrow> py_error + real" where
  "parse_cell Blank = Inr 0"
| "parse_cell (Num r) = Inr r"
| "parse_cell NonNumeric = Inl ValueError"

fun parse_cells :: "cell list \<Rightarrow> py_error + real list" where
  "parse_cells [] = Inr []"
| "parse_cells (c # cs) =
     (case parse_cell c of
        Inl e \<Rightarrow> Inl e
      | Inr v \<Rightarrow> (case parse_cells cs of Inl e \<Rightarrow> Inl e | Inr vs \<Rightarrow> Inr (v # vs)))"

section \<open>Floating-point numbers\<close>

text \<open>
  A Python float is an IEEE 754 binary64 number, and every arithmetic operation returns
  the exact result rounded to the nearest such number, a tie going to the even
  significand. \<open>round_half_even\<close> is that tie rule on the integers. \<open>b64\<close> rounds a real to
  53 significant bits with no bound on the exponent: \<open>E\<close> is the binary exponent of \<open>x\<close>,
  and the significand is scaled to 53 bits and rounded.
\<close>

definition round_half_even :: "real \<Rightarrow> int" where
  "round_half_even y =
     (let f = \<lfloor>y\<rfloor>; d = y - of_int f
      in if d < 1 / 2 then f else if d > 1 / 2 then f + 1 else if even f then f else f + 1)"

definition b64 :: "real \<Rightarrow> real" where
  "b64 x =
     (if x = 0 then 0
      else
        (let a = \<bar>x\<bar>;
             E = (if a \<ge> 1 then bitlen \<lfloor>a\<rfloor> - 1 else - bitlen (\<lceil>1 / a\<rceil> - 1));
             e = E - 52;
             m = (if e \<ge> 0 then a / 2 ^ nat e else a * 2 ^ nat (- e));
             M = of_int (round_half_even m)
         in sgn x * (if e \<ge> 0 then M * 2 ^ nat e else M / 2 ^ nat (- e))))"

text \<open>
  The values of a float: a finite number, the two infinities and not-a-number. \<open>ieee\<close>
  gives the float for a rounded result: a result of magnitude \<open>2 ^ 1024\<close> or more has
  overflowed to an infinity. \<open>float_less\<close> is the comparison \<open><\<close> of two floats, false
  whenever one of them is not-a-number.
\<close>

datatype pyfloat = Finite real | PosInf | NegInf | NaN

definition ieee :: "real \<Rightarrow> pyfloat" where
  "ieee x = (if 2 ^ 1024 \<le> x then PosInf else if x \<le> - (2 ^ 1024) then NegInf else Finite x)"

fun float_less :: "pyfloat \<Rightarrow> pyfloat \<Rightarrow> bool" where
  "float_less (Finite a) (Finite b) = (a < b)"
| "float_less (Finite a) PosInf = True"
| "float_less NegInf (Finite b) = True"
| "float_less NegInf PosInf = True"
| "float_less _ _ = False"

text \<open>
  \<open>binary64\<close> is the rounding with the exponent range of the format: below \<open>2 ^ -1022\<close> the
  numbers are the multiples of \<open>2 ^ -1074\<close> (gradual underflow), and a result that rounds
  to \<open>2 ^ 1024\<close> or more in magnitude is an infinity. It is what \<open>float(s)\<close> makes of a
  decimal and what \<open>+\<close> and \<open>/\<close> make of an exact sum or quotient. \<open>float_add\<close> and
  \<open>float_quotient\<close> are \<open>+\<close> and \<open>/\<close> on floats, the latter for a divisor other than zero.
\<close>

definition binary64 :: "real \<Rightarrow> pyfloat" where
  "binary64 x =
     (if \<bar>x\<bar> < 1 / 2 ^ 1022
      then Finite (of_int (round_half_even (x * 2 ^ 1074)) / 2 ^ 1074)
      else ieee (b64 x))"



text \<open>Proof vocabulary: the binary exponent that \<open>b64\<close> computes.\<close>

definition bexp :: "real \<Rightarrow> int" where
  "bexp a = (if a \<ge> 1 then bitlen \<lfloor>a\<rfloor> - 1 else - bitlen (\<lceil>1 / a\<rceil> - 1))"

section \<open>Discrete distribution analyzer (core_functions/step1_rawdata_analysis.py)\<close>















section \<open>Bin partitioner (core_functions/step3_bin_process.py)\<close>

text \<open>
  \<open>_validate_node_row\<close>: five nodes, no zero between the first and the last non-zero node,
  the non-zero nodes strictly increasing; a violation raises \<open>ValueError\<close>.
\<close>

definition validate_node_row :: "real list \<Rightarrow> py_error + unit" where
  "validate_node_row node_vals =
     (if length node_vals \<noteq> 5 then Inl ValueError
      else
        (let non_zero_indices = filter (\<lambda>i. node_vals ! i \<noteq> 0) [0..<length node_vals]
         in if non_zero_indices = [] then Inr ()
            else
              (let first_non_zero = hd non_zero_indices;
                   last_non_zero = last non_zero_indices
               in if list_ex (\<lambda>i. node_vals ! i = 0) [first_non_zero..<last_non_zero + 1]
                  then Inl ValueError
                  else
                    (let non_zero_vals = map (\<lambda>i. node_vals ! i) non_zero_indices
                     in if length non_zero_vals > 1 \<and>
                           \<not> list_all (\<lambda>j. non_zero_vals ! j < non_zero_vals ! (j + 1))
                                [0..<length non_zero_vals - 1]
                        then Inl ValueError
                        else Inr ()))))"

text \<open>
  \<open>_get_valid_intervals\<close>: the node pairs \<open>(n[i], n[i+1])\<close> with both nodes non-zero and
  \<open>n[i] < n[i+1]\<close>, each with its 1-based bin index.
\<close>

definition get_valid_intervals :: "real list \<Rightarrow> (nat \<times> real \<times> real) list" where
  "get_valid_intervals node_vals =
     concat (map (\<lambda>i.
        (let lower = node_vals ! i; upper = node_vals ! (i + 1)
         in if lower = 0 \<or> upper = 0 then []
            else if lower \<ge> upper then []
            else [(i + 1, lower, upper)])) [0..<4])"

text \<open>
  \<open>_cut_into_bins\<close>. The data frame is modelled by its value column after
  \<open>pd.to_numeric(..., errors='coerce')\<close>: one entry per row, \<open>None\<close> for \<open>NaN\<close>, on which every
  comparison is false. The local functions \<open>is_gt\<close> and \<open>is_le\<close> compare with the tolerance
  \<open>1e-10\<close>; each valid interval selects the rows of its mask into its bin. The count of
  rows outside every mask is the one the function prints as a warning.
\<close>

definition tolerance :: real where "tolerance = 1 / 10 ^ 10"

definition is_gt :: "real option \<Rightarrow> real \<Rightarrow> bool" where
  "is_gt a b = (case a of None \<Rightarrow> False | Some v \<Rightarrow> v > b - tolerance)"

definition is_le :: "real option \<Rightarrow> real \<Rightarrow> bool" where
  "is_le a b = (case a of None \<Rightarrow> False | Some v \<Rightarrow> v \<le> b + tolerance)"

definition cut_into_bins :: "real option list \<Rightarrow> real list \<Rightarrow> py_error + real option list list" where
  "cut_into_bins df node_vals =
     (if length node_vals \<noteq> 5 then Inl ValueError
      else
        Inr (foldl (\<lambda>bin_dfs (bin_idx, lower, upper).
                      bin_dfs[bin_idx - 1 := filter (\<lambda>s. is_gt s lower \<and> is_le s upper) df])
                   (replicate 4 []) (get_valid_intervals node_vals)))"

definition unassigned_count :: "real option list \<Rightarrow> real list \<Rightarrow> nat" where
  "unassigned_count df node_vals =
     length df -
     length (filter (\<lambda>s. list_ex (\<lambda>(bin_idx, lower, upper). is_gt s lower \<and> is_le s upper)
                              (get_valid_intervals node_vals)) df)"

section \<open>Mix-bin combination generator (core_functions/step4_mixbin_calc_1.py)\<close>

text \<open>
  \<open>_read_first5_rows_4cols\<close>: the loop over \<open>enumerate(reader)\<close> breaks at \<open>i >= 5\<close>, so
  only the first five rows are read; each row is cut or padded with \<open>"0"\<close> to four fields
  (\<open>pad_first4\<close> is the local \<open>first4\<close>), and the first field that is not a number raises
  \<open>ValueError\<close>. The leading underscore of the Python names is dropped.
\<close>

definition pad_first4 :: "cell list \<Rightarrow> cell list" where
  "pad_first4 row = take 4 row @ replicate (4 - length row) (Num 0)"

fun parse_rows :: "csv \<Rightarrow> py_error + real list list" where
  "parse_rows [] = Inr []"
| "parse_rows (row # rows) =
     (case parse_cells (pad_first4 row) of
        Inl e \<Rightarrow> Inl e
      | Inr parsed \<Rightarrow> (case parse_rows rows of Inl e \<Rightarrow> Inl e | Inr rs \<Rightarrow> Inr (parsed # rs)))"

definition read_first5_rows_4cols :: "csv \<Rightarrow> py_error + real list list" where
  "read_first5_rows_4cols reader = parse_rows (take 5 reader)"

text \<open>\<open>_is_all_zero\<close> and \<open>_collect_candidates\<close>: the rows read that are not all zero.\<close>

definition is_all_zero :: "real list \<Rightarrow> bool" where
  "is_all_zero row4 = list_all (\<lambda>x. x = 0) row4"

definition collect_candidates :: "csv \<Rightarrow> py_error + real list list" where
  "collect_candidates file =
     (case read_first5_rows_4cols file of
        Inl e \<Rightarrow> Inl e
      | Inr raw \<Rightarrow> Inr (filter (\<lambda>r. \<not> is_all_zero r) raw))"

text \<open>
  \<open>build_mixbin_combos\<close>. Its five input files are the arguments, \<open>None\<close> for a file that
  does not exist. A channel with no candidate gets the placeholder row
  (\<^verbatim>\<open>if not cands: cands = [[0.0, 0.0, 0.0, 0.0]]\<close>); \<open>itertools.product\<close> enumerates the
  tuples with the rightmost list varying fastest, and each tuple is merged into one row.
  The value returned is the list of rows written to \<open>step4_mixbin_combos.csv\<close>; the row
  count the Python returns is its length.
\<close>

definition with_placeholder :: "real list list \<Rightarrow> real list list" where
  "with_placeholder cands = (if cands = [] then [[0, 0, 0, 0]] else cands)"

fun itertools_product :: "'a list list \<Rightarrow> 'a list list" where
  "itertools_product [] = [[]]"
| "itertools_product (xs # xss) =
     concat (map (\<lambda>x. map ((#) x) (itertools_product xss)) xs)"

fun all_candidates :: "csv list \<Rightarrow> py_error + real list list list" where
  "all_candidates [] = Inr []"
| "all_candidates (p # ps) =
     (case collect_candidates p of
        Inl e \<Rightarrow> Inl e
      | Inr cands \<Rightarrow>
          (case all_candidates ps of
             Inl e \<Rightarrow> Inl e
           | Inr rest \<Rightarrow> Inr (with_placeholder cands # rest)))"

definition build_mixbin_combos ::
  "csv option \<Rightarrow> csv option \<Rightarrow> csv option \<Rightarrow> csv option \<Rightarrow> csv option
     \<Rightarrow> py_error + real list list" where
  "build_mixbin_combos led1 led2 led3 led4 led5 =
     (let input_files = [led1, led2, led3, led4, led5] in
      if list_ex (\<lambda>p. p = None) input_files then Inl FileNotFoundError
      else
        (case all_candidates (map the input_files) of
           Inl e \<Rightarrow> Inl e
         | Inr cands \<Rightarrow> Inr (map concat (itertools_product cands))))"

text \<open>
  A channel input as the GUI of step 4 writes it, six rows of four fields with \<open>0\<close> for
  an empty entry, here with a non-zero first field in each row; and five small channel
  inputs.
\<close>

definition six_mix_rows :: csv where
  "six_mix_rows =
     [[Num 1, Num 0, Num 0, Num 0], [Num 2, Num 0, Num 0, Num 0], [Num 3, Num 0, Num 0, Num 0],
      [Num 4, Num 0, Num 0, Num 0], [Num 5, Num 0, Num 0, Num 0], [Num 6, Num 0, Num 0, Num 0]]"

definition example_led1 :: csv where "example_led1 = [[Num 1, Num 2], [Blank]]"

definition example_led2 :: csv where "example_led2 = []"

definition example_led3 :: csv where "example_led3 = [[Num 3], [Num 4]]"

definition example_led4 :: csv where "example_led4 = [[Num 7, Num 7, Num 7, Num 7, Num 9]]"

definition example_led5 :: csv where "example_led5 = [[Num 1], [Num 2]]"

section \<open>Combination normalizer (core_functions/step4_mixbin_calc_3.py)\<close>











text \<open>
  \<open>_fmt\<close> prints a float; the field it writes is modelled by the value the text denotes,
  a decimal or \<open>inf\<close>, \<open>-inf\<close>, \<open>nan\<close>. \<open>round(x, 6)\<close> rounds the exact value of the double \<open>x\<close>
  to the nearest multiple of \<open>1e-6\<close>, a tie going to the even multiple, and returns the
  double nearest to that; printed with six decimals (or as an integer) it shows that
  multiple again. The constant \<open>1e-15\<close> is the double nearest to it.
\<close>

definition py_round6 :: "real \<Rightarrow> real" where
  "py_round6 x = of_int (round_half_even (x * 10 ^ 6)) / 10 ^ 6"











section \<open>Linear interpolation (core_functions/step5_interpolation_1.py)\<close>

text \<open>
  One claim about \<open>linear_interpolation\<close> is about bit-exact results, so this function
  takes the rounding of floating-point arithmetic as a parameter \<open>fl\<close>, applied to the
  result of every arithmetic operation: the identity for exact arithmetic, \<open>b64\<close> for
  Python's floats. Overflow and subnormal numbers are not modelled here.
\<close>

text \<open>
  The return statement \<^verbatim>\<open>return y1 + (y2 - y1) * (x_target - x1) / (x2 - x1)\<close>, the loop
  \<^verbatim>\<open>for i in range(len(x_sorted) - 1)\<close> that returns at the first pair with
  \<open>x_sorted[i] <= x_target <= x_sorted[i + 1]\<close> (and the final \<open>return 0\<close>), and the function:
  the points are sorted by \<open>x\<close> with Python's stable \<open>sorted\<close>; on no point at all,
  \<open>x_sorted[0]\<close> raises \<open>IndexError\<close>.
\<close>

definition interpolate ::
  "(real \<Rightarrow> real) \<Rightarrow> real \<times> real \<Rightarrow> real \<times> real \<Rightarrow> real \<Rightarrow> py_error + real" where
  "interpolate fl p1 p2 x_target =
     (case (p1, p2) of ((x1, y1), (x2, y2)) \<Rightarrow>
        (let num = fl (fl (y2 - y1) * fl (x_target - x1));
             den = fl (x2 - x1)
         in if den = 0 then Inl ZeroDivisionError
            else Inr (fl (y1 + fl (num / den)))))"

fun bracket_search ::
  "(real \<Rightarrow> real) \<Rightarrow> (real \<times> real) list \<Rightarrow> real \<Rightarrow> py_error + real" where
  "bracket_search fl (p1 # p2 # rest) x_target =
     (if fst p1 \<le> x_target \<and> x_target \<le> fst p2 then interpolate fl p1 p2 x_target
      else bracket_search fl (p2 # rest) x_target)"
| "bracket_search fl _ x_target = Inr 0"

definition linear_interpolation ::
  "(real \<Rightarrow> real) \<Rightarrow> real list \<Rightarrow> real list \<Rightarrow> real \<Rightarrow> py_error + real" where
  "linear_interpolation fl x_data y_data x_target =
     (let combined = sort_key fst (zip x_data y_data)
      in if combined = [] then Inl IndexError
         else if x_target \<le> fst (hd combined) then Inr (snd (hd combined))
         else if x_target \<ge> fst (last combined) then Inr (snd (last combined))
         else bracket_search fl combined x_target)"

text \<open>Three points, given out of order to the function and sorted here.\<close>

definition example_points :: "(real \<times> real) list" where
  "example_points = [(10, 1), (20, 3), (30, 4)]"

section \<open>Monte Carlo voltage simulator (core_functions/step7_final_calculation.py)\<close>

text \<open>
  The step 6 directory is a function from file names to files: a file is absent, or
  present with its size in bytes and the rows \<open>csv.reader\<close> yields. The 20 population
  files are read in the order LED 1..5, bin 1..4.
\<close>

datatype disk_file = Absent | Present nat csv

type_synonym directory = "string \<Rightarrow> disk_file"

definition digit :: "nat \<Rightarrow> string" where
  "digit n = [''0123456789'' ! n]"

definition bin_file_name :: "nat \<Rightarrow> nat \<Rightarrow> string" where
  "bin_file_name led_idx bin_idx =
     ''LED'' @ digit led_idx @ ''_raw_data_bin_'' @ digit bin_idx @ ''_interpolated_loss.csv''"

definition file_order :: "string list" where
  "file_order = concat (map (\<lambda>led_idx. map (bin_file_name led_idx) [1..<5]) [1..<6])"

definition combos_file_name :: string where
  "combos_file_name = ''Step6_mixbin_combos_uniformization_series.csv''"

text \<open>
  \<open>_load_bin_data_memory_efficient\<close>: a file that exists and is not empty contributes the
  fields that are numbers (blank fields and fields on which \<open>float\<close> raises are skipped);
  a file that is absent or has size 0 contributes the default population \<open>[0.0]\<close>.
\<close>

fun numbers_of_cell :: "cell \<Rightarrow> real list" where
  "numbers_of_cell Blank = []"
| "numbers_of_cell (Num r) = [r]"
| "numbers_of_cell NonNumeric = []"

definition load_bin_file :: "disk_file \<Rightarrow> real list" where
  "load_bin_file f =
     (case f of
        Absent \<Rightarrow> [0]
      | Present nbytes rows \<Rightarrow>
          if nbytes > 0 then concat (map (\<lambda>row. concat (map numbers_of_cell row)) rows)
          else [0])"

definition load_bin_data_memory_efficient :: "directory \<Rightarrow> real list list" where
  "load_bin_data_memory_efficient step6_dir =
     map (\<lambda>filename. load_bin_file (step6_dir filename)) file_order"

text \<open>
  The combination rows: an empty row is skipped, a blank field reads as \<open>0.0\<close>, and a row
  with a field that is not a number is skipped (the \<open>ValueError\<close> is caught and printed).
\<close>

definition read_combos :: "csv \<Rightarrow> real list list" where
  "read_combos rows =
     concat (map (\<lambda>row. if row = [] then []
                          else (case parse_cells row of Inl e \<Rightarrow> [] | Inr float_row \<Rightarrow> [float_row]))
                 rows)"

text \<open>
  The state the run threads: how many random draws and how many polls of \<open>stop_check\<close>
  have been made, and the output files written so far, newest first, each with its
  1-based combination index and its rows. The random generator is a stream \<open>rng\<close> of
  naturals: the \<open>n\<close>-th call of \<open>random.choice(bin_data)\<close> returns the element at
  \<open>rng n mod len(bin_data)\<close>. \<open>stop_check\<close> is \<open>None\<close> or a function of the poll number.
  The progress callback only observes the run and is left out.
\<close>

record mc_state =
  draws :: nat
  polls :: nat
  written :: "(nat \<times> real list) list"

definition random_choice :: "(nat \<Rightarrow> nat) \<Rightarrow> real list \<Rightarrow> mc_state \<Rightarrow> real \<times> mc_state" where
  "random_choice rng bin_data st =
     (bin_data ! (rng (draws st) mod length bin_data), st\<lparr>draws := Suc (draws st)\<rparr>)"

text \<open>
  \<open>_sample_from_bin\<close>: \<open>int(sample_count)\<close> draws with replacement, summed, and one more
  draw weighted by the fractional part when that part exceeds \<open>1e-10\<close>; an empty
  population gives \<open>0.0\<close>. \<open>int\<close> truncates toward zero.
\<close>

definition py_int :: "real \<Rightarrow> int" where
  "py_int x = (if x \<ge> 0 then \<lfloor>x\<rfloor> else \<lceil>x\<rceil>)"

fun draw_sum :: "(nat \<Rightarrow> nat) \<Rightarrow> real list \<Rightarrow> nat \<Rightarrow> real \<Rightarrow> mc_state \<Rightarrow> real \<times> mc_state" where
  "draw_sum rng bin_data 0 running_total st = (running_total, st)"
| "draw_sum rng bin_data (Suc n) running_total st =
     (case random_choice rng bin_data st of
        (v, st') \<Rightarrow> draw_sum rng bin_data n (running_total + v) st')"

definition sample_from_bin ::
  "(nat \<Rightarrow> nat) \<Rightarrow> real list \<Rightarrow> real \<Rightarrow> mc_state \<Rightarrow> real \<times> mc_state" where
  "sample_from_bin rng bin_data sample_count st =
     (if bin_data = [] then (0, st)
      else
        (let integer_part = py_int sample_count in
         (case draw_sum rng bin_data (nat integer_part) 0 st of
            (running_total, st1) \<Rightarrow>
              (let fractional_part = sample_count - of_int integer_part
               in if fractional_part > 1 / 10 ^ 10
                  then (case random_choice rng bin_data st1 of
                          (last_sample, st2) \<Rightarrow> (running_total + last_sample * fractional_part, st2))
                  else (running_total, st1)))))"

text \<open>
  One trial sums the contributions of the slots \<open>enumerate(combo[:20])\<close>. The trial loop
  polls \<open>stop_check\<close> when \<open>sim_idx % 1000 == 0\<close> and appends each total to the open output
  file; the combination loop polls it before each combination and opens the file
  \<open>combos_i_Voltage.csv\<close>.
\<close>

fun one_trial ::
  "(nat \<Rightarrow> nat) \<Rightarrow> real list list \<Rightarrow> (nat \<times> real) list \<Rightarrow> real \<Rightarrow> mc_state \<Rightarrow> real \<times> mc_state" where
  "one_trial rng bin_data_list [] total_voltage st = (total_voltage, st)"
| "one_trial rng bin_data_list ((bin_idx, sample_count) # slots) total_voltage st =
     (if bin_idx < length bin_data_list
      then (case sample_from_bin rng (bin_data_list ! bin_idx) sample_count st of
              (bin_contribution, st') \<Rightarrow>
                one_trial rng bin_data_list slots (total_voltage + bin_contribution) st')
      else one_trial rng bin_data_list slots total_voltage st)"

definition stop_requested :: "(nat \<Rightarrow> bool) option \<Rightarrow> mc_state \<Rightarrow> bool \<times> mc_state" where
  "stop_requested stop_check st =
     (case stop_check of
        None \<Rightarrow> (False, st)
      | Some f \<Rightarrow> (f (polls st), st\<lparr>polls := Suc (polls st)\<rparr>))"

definition append_row :: "real \<Rightarrow> mc_state \<Rightarrow> mc_state" where
  "append_row v st =
     (case written st of
        [] \<Rightarrow> st
      | (idx, rows) # older \<Rightarrow> st\<lparr>written := (idx, rows @ [v]) # older\<rparr>)"

fun run_trials ::
  "(nat \<Rightarrow> nat) \<Rightarrow> (nat \<Rightarrow> bool) option \<Rightarrow> real list list \<Rightarrow> real list \<Rightarrow> nat list
     \<Rightarrow> mc_state \<Rightarrow> bool \<times> mc_state" where
  "run_trials rng stop_check bin_data_list combo [] st = (False, st)"
| "run_trials rng stop_check bin_data_list combo (sim_idx # sims) st =
     (case (if sim_idx mod 1000 = 0 then stop_requested stop_check st else (False, st)) of
        (stop, st1) \<Rightarrow>
          if stop then (True, st1)
          else (case one_trial rng bin_data_list (enumerate 0 (take 20 combo)) 0 st1 of
                  (total_voltage, st2) \<Rightarrow>
                    run_trials rng stop_check bin_data_list combo sims (append_row total_voltage st2)))"

text \<open>
  \<open>run_monte_carlo_simulation\<close> returns \<open>(success, message)\<close>; the messages are the values
  of \<open>mc_message\<close>. Its handler \<^verbatim>\<open>except Exception\<close> has no counterpart here: none of the
  modelled operations raises (files that exist are taken to be readable).
\<close>

datatype mc_message =
    CombosFileMissing
  | CombosFileEmpty
  | BinFileCountWrong nat
  | StoppedByUser
  | SimulationCompleted nat int

fun run_combos ::
  "(nat \<Rightarrow> nat) \<Rightarrow> (nat \<Rightarrow> bool) option \<Rightarrow> real list list \<Rightarrow> int \<Rightarrow> (nat \<times> real list) list
     \<Rightarrow> mc_state \<Rightarrow> bool \<times> mc_state" where
  "run_combos rng stop_check bin_data_list simulation_count [] st = (False, st)"
| "run_combos rng stop_check bin_data_list simulation_count ((combo_idx, combo) # combos) st =
     (case stop_requested stop_check st of
        (stop, st1) \<Rightarrow>
          if stop then (True, st1)
          else
            (case run_trials rng stop_check bin_data_list combo [0..<nat simulation_count]
                    (st1\<lparr>written := (combo_idx, []) # written st1\<rparr>) of
               (stopped, st2) \<Rightarrow>
                 if stopped then (True, st2)
                 else run_combos rng stop_check bin_data_list simulation_count combos st2))"

definition run_monte_carlo_simulation ::
  "directory \<Rightarrow> (nat \<Rightarrow> nat) \<Rightarrow> int \<Rightarrow> (nat \<Rightarrow> bool) option \<Rightarrow> mc_state
     \<Rightarrow> (bool \<times> mc_message) \<times> mc_state" where
  "run_monte_carlo_simulation step6_dir rng simulation_count stop_check st =
     (case step6_dir combos_file_name of
        Absent \<Rightarrow> ((False, CombosFileMissing), st)
      | Present nbytes rows \<Rightarrow>
          (let combos_data = read_combos rows in
           if combos_data = [] then ((False, CombosFileEmpty), st)
           else
             (let total_combos = length combos_data;
                  bin_data_list = load_bin_data_memory_efficient step6_dir
              in if length bin_data_list \<noteq> 20
                 then ((False, BinFileCountWrong (length bin_data_list)), st)
                 else
                   (case run_combos rng stop_check bin_data_list simulation_count
                           (enumerate 1 combos_data) st of
                      (stopped, st') \<Rightarrow>
                        if stopped then ((False, StoppedByUser), st')
                        else ((True, SimulationCompleted total_combos simulation_count), st')))))"

text \<open>
  The state before a run, and a directory that holds the combination file (one row of 20
  weights) and no population file.
\<close>

definition initial_state :: mc_state where
  "initial_state = \<lparr>draws = 0, polls = 0, written = []\<rparr>"

definition only_combos_present :: directory where
  "only_combos_present =
     (\<lambda>name. if name = combos_file_name
              then Present 60 [map Num [1, 1/2, 0, 0, 0, 0, 0, 0, 1, 0, 0, 0, 0, 0, 0, 0, 0, 0, 0, 0]]
              else Absent)"

section \<open>Highest-density interval estimator (core_functions/step7_result_curve_plotting.py)\<close>








text \<open>
  Proof vocabulary: the computed span of the window that starts at index \<open>i\<close>, and the
  invariant of the loop after the windows \<open>0..m-1\<close>, started with the endpoints \<open>a\<close>
  and \<open>b\<close>.
\<close>

definition win_span :: "real list \<Rightarrow> nat \<Rightarrow> nat \<Rightarrow> pyfloat" where
  "win_span s k i = ieee (b64 (s ! (i + k - 1) - s ! i))"


section \<open>Floating-point numbers: proofs\<close>


lemma round_half_even_of_int [simp]: "round_half_even (of_int k) = k"
  by (simp add: round_half_even_def)

lemma b64_powi:
  "b64 x = (if x = 0 then 0 else
     sgn x * of_int (round_half_even (\<bar>x\<bar> / 2 powi (bexp \<bar>x\<bar> - 52))) * 2 powi (bexp \<bar>x\<bar> - 52))"
  by (simp add: b64_def bexp_def Let_def power_int_def field_simps)

lemma bexp_bounds:
  assumes "0 < a"
  shows "2 powi (bexp a) \<le> a" "a < 2 powi (bexp a + 1)"
proof -
  show "2 powi (bexp a) \<le> a"
  proof (cases "1 \<le> a")
    case True
    then have p: "0 < \<lfloor>a\<rfloor>" by simp
    from bitlen_bounds[OF p] have "2 ^ nat (bitlen \<lfloor>a\<rfloor> - 1) \<le> \<lfloor>a\<rfloor>" by simp
    then have "(2::real) ^ nat (bitlen \<lfloor>a\<rfloor> - 1) \<le> of_int \<lfloor>a\<rfloor>"
      by (metis of_int_le_iff of_int_numeral of_int_power)
    also have "\<dots> \<le> a" by simp
    finally have "(2::real) ^ nat (bitlen \<lfloor>a\<rfloor> - 1) \<le> a" .
    moreover have "0 \<le> bitlen \<lfloor>a\<rfloor> - 1" using p bitlen_def by (simp add: bitlen_alt_def)
    ultimately show ?thesis using True by (simp add: bexp_def power_int_def)
  next
    case False
    then have a1: "a < 1" by simp
    define j where "j = \<lceil>1 / a\<rceil> - 1"
    have "1 < 1 / a" using assms a1 by simp
    then have "2 \<le> \<lceil>1 / a\<rceil>" by linarith
    then have jp: "0 < j" by (simp add: j_def)
    have "1 / a \<le> of_int (j + 1)" unfolding j_def by simp
    moreover from bitlen_bounds[OF jp] have "j + 1 \<le> 2 ^ nat (bitlen j)" by simp
    then have "of_int (j + 1) \<le> (2::real) ^ nat (bitlen j)"
      by (metis of_int_le_iff of_int_numeral of_int_power)
    ultimately have "1 / a \<le> 2 ^ nat (bitlen j)" by linarith
    then have "1 / 2 ^ nat (bitlen j) \<le> a" using assms
      by (simp add: field_simps)
    moreover have "0 < bitlen j" using jp by (simp add: bitlen_alt_def)
    ultimately show ?thesis using a1 unfolding bexp_def j_def[symmetric]
      by (simp add: power_int_def field_simps)
  qed
  show "a < 2 powi (bexp a + 1)"
  proof (cases "1 \<le> a")
    case True
    then have p: "0 < \<lfloor>a\<rfloor>" by simp
    from bitlen_bounds[OF p] have "\<lfloor>a\<rfloor> + 1 \<le> 2 ^ nat (bitlen \<lfloor>a\<rfloor>)" by simp
    then have "of_int (\<lfloor>a\<rfloor> + 1) \<le> (2::real) ^ nat (bitlen \<lfloor>a\<rfloor>)"
      by (metis of_int_le_iff of_int_numeral of_int_power)
    moreover have "a < of_int (\<lfloor>a\<rfloor> + 1)" by simp
    ultimately have "a < 2 ^ nat (bitlen \<lfloor>a\<rfloor>)" by linarith
    moreover have "0 \<le> bitlen \<lfloor>a\<rfloor>" by (rule bitlen_nonneg)
    ultimately show ?thesis using True by (simp add: bexp_def power_int_def)
  next
    case False
    then have a1: "a < 1" by simp
    define j where "j = \<lceil>1 / a\<rceil> - 1"
    have "1 < 1 / a" using assms a1 by simp
    then have "2 \<le> \<lceil>1 / a\<rceil>" by linarith
    then have jp: "0 < j" by (simp add: j_def)
    have lt: "of_int j < 1 / a" unfolding j_def by linarith
    from bitlen_bounds[OF jp] have "2 ^ nat (bitlen j - 1) \<le> j" by simp
    then have "(2::real) ^ nat (bitlen j - 1) \<le> of_int j"
      by (metis of_int_le_iff of_int_numeral of_int_power)
    with lt have "2 ^ nat (bitlen j - 1) < 1 / a" by linarith
    then have u: "a < 1 / 2 ^ nat (bitlen j - 1)" using assms by (simp add: field_simps)
    have bp: "0 < bitlen j" using jp by (simp add: bitlen_alt_def)
    have "2 powi (- bitlen j + 1) = 1 / (2::real) ^ nat (bitlen j - 1)"
    proof (cases "bitlen j = 1")
      case True then show ?thesis by simp
    next
      case False
      with bp have "- bitlen j + 1 < 0" by simp
      moreover have "nat (- (- bitlen j + 1)) = nat (bitlen j - 1)" by simp
      ultimately show ?thesis by (simp add: power_int_def field_simps)
    qed
    with u show ?thesis using a1 unfolding bexp_def j_def[symmetric] by simp
  qed
qed






lemma b64_exact:
  assumes "\<bar>k\<bar> < 2 ^ 53"
  shows "b64 (of_int k * 2 powi j) = of_int k * 2 powi j"
proof (cases "k = 0")
  case True then show ?thesis by (simp add: b64_def)
next
  case False
  define x :: real where "x = of_int k * 2 powi j"
  define a :: real where "a = \<bar>x\<bar>"
  have ak: "a = of_int \<bar>k\<bar> * 2 powi j" by (simp add: a_def x_def abs_mult)
  have ap: "0 < a" using False by (simp add: ak)
  have x0: "x \<noteq> 0" using ap a_def by auto
  define E where "E = bexp a"
  have "of_int \<bar>k\<bar> < (2::real) ^ 53" using assms
    by (metis of_int_less_iff of_int_numeral of_int_power)
  then have "a < 2 ^ 53 * 2 powi j" unfolding ak by (intro mult_strict_right_mono) simp_all
  also have "\<dots> = 2 powi (53 + j)" by (simp add: power_int_add)
  finally have "2 powi E < (2::real) powi (53 + j)"
    using bexp_bounds(1)[OF ap] unfolding E_def by linarith
  then have "E < 53 + j"
    by (metis linorder_not_less one_le_numeral power_int_increasing)
  then have d: "0 \<le> j - (E - 52)" by simp
  have "a / 2 powi (E - 52) = of_int \<bar>k\<bar> * 2 powi (j - (E - 52))"
    by (simp add: ak power_int_diff)
  also have "\<dots> = of_int \<bar>k\<bar> * 2 ^ nat (j - (E - 52))" using d by (simp add: power_int_def)
  also have "\<dots> = of_int (\<bar>k\<bar> * 2 ^ nat (j - (E - 52)))" by simp
  finally have m: "a / 2 powi (E - 52) = of_int (\<bar>k\<bar> * 2 ^ nat (j - (E - 52)))" .
  have "b64 x = sgn x * of_int (round_half_even (a / 2 powi (E - 52))) * 2 powi (E - 52)"
    using x0 by (simp add: b64_powi a_def E_def)
  also have "\<dots> = sgn x * (a / 2 powi (E - 52)) * 2 powi (E - 52)"
    by (simp only: m round_half_even_of_int)
  also have "\<dots> = sgn x * a" by simp
  also have "\<dots> = x" by (simp add: a_def sgn_if)
  finally show ?thesis by (simp add: x_def)
qed

lemma b64_of_int: "\<bar>k\<bar> < 2 ^ 53 \<Longrightarrow> b64 (of_int k) = of_int k"
  using b64_exact[of k 0] by simp

lemma b64_of_nat: "n < 2 ^ 53 \<Longrightarrow> b64 (of_nat n) = of_nat n"
  using b64_of_int[of "int n"] by simp

lemma b64_numeral [simp]: "numeral w < (2::int) ^ 53 \<Longrightarrow> b64 (numeral w) = numeral w"
  using b64_of_int[of "numeral w"] by simp

lemma b64_0 [simp]: "b64 0 = 0" by (simp add: b64_def)

lemma b64_1 [simp]: "b64 1 = 1" using b64_of_int[of 1] by simp



lemma float_less_trans: "float_less a b \<Longrightarrow> float_less b c \<Longrightarrow> float_less a c"
  by (cases a; cases b; cases c) simp_all




lemma float_less_irrefl [simp]: "\<not> float_less w w"
  by (cases w) simp_all

lemma float_less_PosInf_left [simp]: "\<not> float_less PosInf w"
  by (cases w) simp_all

lemma ieee_finite: "\<bar>x\<bar> < 2 ^ 1024 \<Longrightarrow> ieee x = Finite x"
  by (simp add: ieee_def abs_less_iff)

lemma binary64_normal:
  assumes "1 / 2 ^ 1022 \<le> \<bar>x\<bar>" "\<bar>b64 x\<bar> < 2 ^ 1024"
  shows "binary64 x = Finite (b64 x)"
  using assms by (simp add: binary64_def ieee_finite)

lemma binary64_0 [simp]: "binary64 0 = Finite 0"
  by (simp add: binary64_def round_half_even_def)

lemma binary64_exact:
  assumes "\<bar>k\<bar> < 2 ^ 53" "1 / 2 ^ 1022 \<le> \<bar>of_int k * 2 powi j :: real\<bar>"
    "\<bar>of_int k * 2 powi j :: real\<bar> < 2 ^ 1024"
  shows "binary64 (of_int k * 2 powi j) = Finite (of_int k * 2 powi j)"
  using binary64_normal[of "of_int k * 2 powi j"] assms by (simp add: b64_exact)

lemma binary64_of_int:
  assumes "\<bar>k\<bar> < 2 ^ 53"
  shows "binary64 (of_int k) = Finite (of_int k)"
proof (cases "k = 0")
  case True then show ?thesis by simp
next
  case False
  then have "1 \<le> \<bar>k\<bar>" by simp
  then have a: "(1::real) \<le> \<bar>of_int k\<bar>" by (metis of_int_1_le_iff of_int_abs)
  have "(1::real) / 2 ^ 1022 \<le> 1" by simp
  with a have l: "1 / 2 ^ 1022 \<le> \<bar>of_int k * 2 powi 0 :: real\<bar>" by simp
  have "\<bar>of_int k :: real\<bar> < 2 ^ 53" using assms
    by (metis of_int_abs of_int_less_iff of_int_numeral of_int_power)
  moreover have "(2::real) ^ 53 < 2 ^ 1024" by simp
  ultimately have u: "\<bar>of_int k * 2 powi 0 :: real\<bar> < 2 ^ 1024" by simp
  from binary64_exact[OF assms l u] show ?thesis by simp
qed

lemma binary64_numeral [simp]: "numeral w < (2::int) ^ 53 \<Longrightarrow> binary64 (numeral w) = Finite (numeral w)"
  using binary64_of_int[of "numeral w"] by simp

lemma binary64_neg_numeral [simp]:
  "numeral w < (2::int) ^ 53 \<Longrightarrow> binary64 (- numeral w) = Finite (- numeral w)"
  using binary64_of_int[of "- numeral w"] by simp

lemma binary64_1 [simp]: "binary64 1 = Finite 1"
  using binary64_of_int[of 1] by simp

lemma binary64_m1 [simp]: "binary64 (- 1) = Finite (- 1)"
  using binary64_of_int[of "- 1"] by simp




section \<open>Shortest covering interval: proofs\<close>











section \<open>Bin partitioner: evaluation\<close>

text \<open>
  Claim C5, evaluated. The nodes \<open>[1, 2, 3, 0, 0]\<close> pass the validation and give the
  active bins \<open>(1, 2]\<close> and \<open>(2, 3]\<close>. A population element equal to the shared boundary 2
  is placed in both bins, and none is reported unassigned; an element equal to the lower
  node 1 of the first bin is placed in that bin. The mask \<open>s > lower - 1e-10\<close> includes the
  lower boundary.
\<close>

theorem boundary_value_lands_in_two_bins:
  "validate_node_row [1, 2, 3, 0, 0] = Inr () \<and>
   get_valid_intervals [1, 2, 3, 0, 0] = [(1, 1, 2), (2, 2, 3)] \<and>
   cut_into_bins [Some 2] [1, 2, 3, 0, 0] = Inr [[Some 2], [Some 2], [], []] \<and>
   unassigned_count [Some 2] [1, 2, 3, 0, 0] = 0 \<and>
   cut_into_bins [Some 1] [1, 2, 3, 0, 0] = Inr [[Some 1], [], [], []]"
  by code_simp

section \<open>Mix-bin combination generator: proofs\<close>

lemma length_itertools_product:
  "length (itertools_product xss) = prod_list (map length xss)"
proof (induction xss)
  case Nil
  show ?case by simp
next
  case (Cons xs xss)
  have "length (concat (map (\<lambda>x. map ((#) x) (itertools_product xss)) xs))
      = length xs * length (itertools_product xss)"
    by (induction xs) simp_all
  with Cons show ?case by simp
qed

lemma nth_concat_blocks:
  assumes "\<And>x. x \<in> set xs \<Longrightarrow> length (f x) = p" "i < length xs" "j < p"
  shows "concat (map f xs) ! (i * p + j) = f (xs ! i) ! j"
  using assms
proof (induction xs arbitrary: i)
  case Nil
  then show ?case by simp
next
  case (Cons x xs)
  show ?case
  proof (cases i)
    case 0
    with Cons.prems show ?thesis by (simp add: nth_append)
  next
    case (Suc i')
    have "concat (map f xs) ! (i' * p + j) = f (xs ! i') ! j"
      using Cons.prems Suc by (intro Cons.IH) auto
    moreover have "length (f x) = p" using Cons.prems(1) by simp
    ultimately show ?thesis using Suc by (simp add: nth_append)
  qed
qed

lemma itertools_product_nth:
  assumes "i < length xs" "j < length (itertools_product xss)"
  shows "itertools_product (xs # xss) ! (i * length (itertools_product xss) + j)
       = xs ! i # itertools_product xss ! j"
proof -
  have "concat (map (\<lambda>x. map ((#) x) (itertools_product xss)) xs)
          ! (i * length (itertools_product xss) + j)
      = map ((#) (xs ! i)) (itertools_product xss) ! j"
    by (rule nth_concat_blocks) (use assms in simp_all)
  then show ?thesis using assms by simp
qed

lemma itertools_product_elem:
  "ys \<in> set (itertools_product xss) \<Longrightarrow>
     length ys = length xss \<and> (\<forall>k < length xss. ys ! k \<in> set (xss ! k))"
proof (induction xss arbitrary: ys)
  case Nil
  then show ?case by simp
next
  case (Cons xs xss)
  from Cons.prems obtain x zs where z: "x \<in> set xs" "zs \<in> set (itertools_product xss)" "ys = x # zs"
    by auto
  from Cons.IH[OF z(2)] have ih: "length zs = length xss" "\<forall>k < length xss. zs ! k \<in> set (xss ! k)"
    by auto
  show ?case using z ih by (auto simp: nth_Cons split: nat.splits)
qed

lemma parse_cells_length: "parse_cells cs = Inr vs \<Longrightarrow> length vs = length cs"
  by (induction cs arbitrary: vs) (auto split: sum.splits)

lemma length_pad_first4: "length (pad_first4 row) = 4"
  by (simp add: pad_first4_def)

lemma parse_rows_rows: "parse_rows rows = Inr rs \<Longrightarrow> length rs = length rows \<and> (\<forall>r \<in> set rs. length r = 4)"
proof (induction rows arbitrary: rs)
  case Nil
  then show ?case by simp
next
  case (Cons row rows)
  from Cons.prems obtain parsed rest where p: "parse_cells (pad_first4 row) = Inr parsed"
    "parse_rows rows = Inr rest" "rs = parsed # rest"
    by (auto split: sum.splits)
  from parse_cells_length[OF p(1)] have "length parsed = 4" by (simp add: length_pad_first4)
  with Cons.IH[OF p(2)] p(3) show ?case by simp
qed

lemma collect_candidates_rows:
  assumes "collect_candidates file = Inr q"
  shows "length q \<le> 5" "\<forall>r \<in> set q. length r = 4 \<and> \<not> is_all_zero r"
proof -
  from assms obtain raw where raw: "parse_rows (take 5 file) = Inr raw"
    "q = filter (\<lambda>r. \<not> is_all_zero r) raw"
    by (auto simp: collect_candidates_def read_first5_rows_4cols_def split: sum.splits)
  from parse_rows_rows[OF raw(1)] have r: "length raw \<le> 5" "\<forall>r \<in> set raw. length r = 4" by auto
  have "length q \<le> length raw" unfolding raw(2) by (rule length_filter_le)
  with r(1) show "length q \<le> 5" by simp
  show "\<forall>r \<in> set q. length r = 4 \<and> \<not> is_all_zero r" using r(2) raw(2) by simp
qed

lemma with_placeholder_rows:
  assumes "\<forall>r \<in> set q. length r = 4"
  shows "\<forall>r \<in> set (with_placeholder q). length r = 4" "with_placeholder q \<noteq> []"
  using assms by (auto simp: with_placeholder_def)

lemma length_with_placeholder: "length (with_placeholder q) = (if q = [] then 1 else length q)"
  by (simp add: with_placeholder_def)

lemma mixed_radix_bound:
  fixes i j a b :: nat
  assumes "i < a" "j < b"
  shows "i * b + j < a * b"
proof -
  have "i * b + j < i * b + b" using assms(2) by simp
  also have "\<dots> = Suc i * b" by simp
  also have "\<dots> \<le> a * b" using assms(1) by (intro mult_le_mono1) simp
  finally show ?thesis .
qed

lemma itertools_product_five_nth:
  assumes "i1 < length a" "i2 < length b" "i3 < length c" "i4 < length d" "i5 < length e"
  shows "itertools_product [a, b, c, d, e]
           ! ((((i1 * length b + i2) * length c + i3) * length d + i4) * length e + i5)
         = [a ! i1, b ! i2, c ! i3, d ! i4, e ! i5]"
proof -
  have l1: "length (itertools_product [e]) = length e"
    and l2: "length (itertools_product [d, e]) = length d * length e"
    and l3: "length (itertools_product [c, d, e]) = length c * (length d * length e)"
    and l4: "length (itertools_product [b, c, d, e]) = length b * (length c * (length d * length e))"
    by (simp_all only: length_itertools_product list.map prod_list.Cons prod_list.Nil mult_1_right)
  have p1: "itertools_product [e] ! i5 = [e ! i5]"
    using itertools_product_nth[of i5 e 0 "[]"] assms(5) by simp
  have j2: "i4 * length e + i5 < length d * length e"
    by (rule mixed_radix_bound[OF assms(4,5)])
  have p2: "itertools_product [d, e] ! (i4 * length e + i5) = [d ! i4, e ! i5]"
    using itertools_product_nth[of i4 d i5 "[e]"] assms(4,5) l1 p1 by simp
  have j3: "i3 * (length d * length e) + (i4 * length e + i5) < length c * (length d * length e)"
    by (rule mixed_radix_bound[OF assms(3) j2])
  have p3: "itertools_product [c, d, e] ! (i3 * (length d * length e) + (i4 * length e + i5))
      = [c ! i3, d ! i4, e ! i5]"
    using itertools_product_nth[of i3 c "i4 * length e + i5" "[d, e]"] assms(3) j2 l2 p2 by simp
  have j4: "i2 * (length c * (length d * length e)) + (i3 * (length d * length e) + (i4 * length e + i5))
      < length b * (length c * (length d * length e))"
    by (rule mixed_radix_bound[OF assms(2) j3])
  have p4: "itertools_product [b, c, d, e]
        ! (i2 * (length c * (length d * length e)) + (i3 * (length d * length e) + (i4 * length e + i5)))
      = [b ! i2, c ! i3, d ! i4, e ! i5]"
    using itertools_product_nth[of i2 b "i3 * (length d * length e) + (i4 * length e + i5)" "[c, d, e]"]
      assms(2) j3 l3 p3 by simp
  have p5: "itertools_product [a, b, c, d, e]
        ! (i1 * (length b * (length c * (length d * length e)))
           + (i2 * (length c * (length d * length e)) + (i3 * (length d * length e) + (i4 * length e + i5))))
      = [a ! i1, b ! i2, c ! i3, d ! i4, e ! i5]"
    using itertools_product_nth[of i1 a
        "i2 * (length c * (length d * length e)) + (i3 * (length d * length e) + (i4 * length e + i5))"
        "[b, c, d, e]"]
      assms(1) j4 l4 p4 by simp
  have idx: "(((i1 * length b + i2) * length c + i3) * length d + i4) * length e + i5
      = i1 * (length b * (length c * (length d * length e)))
           + (i2 * (length c * (length d * length e)) + (i3 * (length d * length e) + (i4 * length e + i5)))"
    by (simp add: algebra_simps)
  show ?thesis unfolding idx by (rule p5)
qed

lemma build_mixbin_combos_eq:
  assumes "collect_candidates f1 = Inr q1" "collect_candidates f2 = Inr q2"
    "collect_candidates f3 = Inr q3" "collect_candidates f4 = Inr q4"
    "collect_candidates f5 = Inr q5"
  shows "build_mixbin_combos (Some f1) (Some f2) (Some f3) (Some f4) (Some f5) =
     Inr (map concat (itertools_product
       [with_placeholder q1, with_placeholder q2, with_placeholder q3,
        with_placeholder q4, with_placeholder q5]))"
  using assms by (simp add: build_mixbin_combos_def)

lemma combo_row_length:
  assumes "\<forall>k < 5. \<forall>r \<in> set (cs ! k). length r = 4" "length cs = 5"
    "row \<in> set (map concat (itertools_product cs))"
  shows "length row = 20"
proof -
  from assms(3) obtain ys where ys: "ys \<in> set (itertools_product cs)" "row = concat ys" by auto
  from itertools_product_elem[OF ys(1)] assms(2)
  have l: "length ys = 5" and m: "\<forall>k < 5. ys ! k \<in> set (cs ! k)" by auto
  from l obtain y1 y2 y3 y4 y5 where y: "ys = [y1, y2, y3, y4, y5]"
    by (auto simp: length_Suc_conv eval_nat_numeral)
  have "\<forall>k < 5. length (ys ! k) = 4" using m assms(1) by blast
  then have "length (ys ! 0) = 4" "length (ys ! 1) = 4" "length (ys ! 2) = 4"
    "length (ys ! 3) = 4" "length (ys ! 4) = 4" by simp_all
  then show ?thesis using ys(2) y by simp
qed

text \<open>
  Claim C3. When the five channel inputs are read without error, with candidate lists
  \<open>q1..q5\<close>, the generator produces exactly \<open>c1 * c2 * c3 * c4 * c5\<close> rows, where \<open>ck\<close> is
  the number of candidates of channel \<open>k\<close>, replaced by 1 when the channel has none (it then
  contributes the all-zero placeholder row); every row has length 20; and the row at
  position \<open>(((i1 * c2 + i2) * c3 + i3) * c4 + i4) * c5 + i5\<close> is the concatenation of
  candidate \<open>i1\<close> of channel 1, ..., candidate \<open>i5\<close> of channel 5: the Cartesian product in
  channel order with the last channel varying fastest.
\<close>

theorem build_mixbin_combos_cartesian:
  assumes q: "collect_candidates f1 = Inr q1" "collect_candidates f2 = Inr q2"
    "collect_candidates f3 = Inr q3" "collect_candidates f4 = Inr q4"
    "collect_candidates f5 = Inr q5"
  shows "\<exists>combos.
     build_mixbin_combos (Some f1) (Some f2) (Some f3) (Some f4) (Some f5) = Inr combos \<and>
     length combos =
       (if q1 = [] then 1 else length q1) * (if q2 = [] then 1 else length q2) *
       (if q3 = [] then 1 else length q3) * (if q4 = [] then 1 else length q4) *
       (if q5 = [] then 1 else length q5) \<and>
     (\<forall>row \<in> set combos. length row = 20) \<and>
     (\<forall>i1 i2 i3 i4 i5.
        i1 < length (with_placeholder q1) \<and> i2 < length (with_placeholder q2) \<and>
        i3 < length (with_placeholder q3) \<and> i4 < length (with_placeholder q4) \<and>
        i5 < length (with_placeholder q5) \<longrightarrow>
        combos ! ((((i1 * length (with_placeholder q2) + i2) * length (with_placeholder q3) + i3)
                     * length (with_placeholder q4) + i4) * length (with_placeholder q5) + i5)
          = with_placeholder q1 ! i1 @ with_placeholder q2 ! i2 @ with_placeholder q3 ! i3 @
            with_placeholder q4 ! i4 @ with_placeholder q5 ! i5) \<and>
     with_placeholder [] = [[0, 0, 0, 0]]"
proof -
  have ph: "with_placeholder [] = [[0, 0, 0, 0]]" by (simp add: with_placeholder_def)
  let ?cs = "[with_placeholder q1, with_placeholder q2, with_placeholder q3,
              with_placeholder q4, with_placeholder q5]"
  let ?combos = "map concat (itertools_product ?cs)"
  have b: "build_mixbin_combos (Some f1) (Some f2) (Some f3) (Some f4) (Some f5) = Inr ?combos"
    by (rule build_mixbin_combos_eq[OF q])
  have len: "length ?combos =
       (if q1 = [] then 1 else length q1) * (if q2 = [] then 1 else length q2) *
       (if q3 = [] then 1 else length q3) * (if q4 = [] then 1 else length q4) *
       (if q5 = [] then 1 else length q5)"
    by (simp only: length_map length_itertools_product list.map prod_list.Cons prod_list.Nil
        length_with_placeholder mult_1_right mult.assoc)
  have r4: "\<forall>r \<in> set (with_placeholder qa). length r = 4"
    if "collect_candidates fa = Inr qa" for fa qa
    using with_placeholder_rows(1)[of qa] collect_candidates_rows(2)[OF that] by blast
  have four: "\<forall>k < 5. \<forall>r \<in> set (?cs ! k). length r = 4"
  proof (intro allI impI)
    fix k :: nat assume "k < 5"
    then consider "k = 0" | "k = 1" | "k = 2" | "k = 3" | "k = 4" by linarith
    then show "\<forall>r \<in> set (?cs ! k). length r = 4"
    proof cases
      case 1 then show ?thesis using r4[OF q(1)] by simp
    next
      case 2 then show ?thesis using r4[OF q(2)] by simp
    next
      case 3 then show ?thesis using r4[OF q(3)] by simp
    next
      case 4 then show ?thesis using r4[OF q(4)] by simp
    next
      case 5 then show ?thesis using r4[OF q(5)] by simp
    qed
  qed
  have rows: "\<forall>row \<in> set ?combos. length row = 20"
  proof
    fix row assume "row \<in> set ?combos"
    then show "length row = 20" by (rule combo_row_length[OF four, rotated]) simp
  qed
  have nth: "\<forall>i1 i2 i3 i4 i5.
        i1 < length (with_placeholder q1) \<and> i2 < length (with_placeholder q2) \<and>
        i3 < length (with_placeholder q3) \<and> i4 < length (with_placeholder q4) \<and>
        i5 < length (with_placeholder q5) \<longrightarrow>
        ?combos ! ((((i1 * length (with_placeholder q2) + i2) * length (with_placeholder q3) + i3)
                     * length (with_placeholder q4) + i4) * length (with_placeholder q5) + i5)
          = with_placeholder q1 ! i1 @ with_placeholder q2 ! i2 @ with_placeholder q3 ! i3 @
            with_placeholder q4 ! i4 @ with_placeholder q5 ! i5"
  proof (intro allI impI, elim conjE)
    fix i1 i2 i3 i4 i5
    assume i: "i1 < length (with_placeholder q1)" "i2 < length (with_placeholder q2)"
      "i3 < length (with_placeholder q3)" "i4 < length (with_placeholder q4)"
      "i5 < length (with_placeholder q5)"
    let ?idx = "(((i1 * length (with_placeholder q2) + i2) * length (with_placeholder q3) + i3)
                     * length (with_placeholder q4) + i4) * length (with_placeholder q5) + i5"
    have "?idx < length (with_placeholder q1) * length (with_placeholder q2) *
        length (with_placeholder q3) * length (with_placeholder q4) * length (with_placeholder q5)"
      by (intro mixed_radix_bound i)
    then have "?idx < length (itertools_product ?cs)"
      by (simp only: length_itertools_product list.map prod_list.Cons prod_list.Nil
          mult_1_right mult.assoc)
    then have "?combos ! ?idx = concat (itertools_product ?cs ! ?idx)" by (rule nth_map)
    also have "itertools_product ?cs ! ?idx =
        [with_placeholder q1 ! i1, with_placeholder q2 ! i2, with_placeholder q3 ! i3,
         with_placeholder q4 ! i4, with_placeholder q5 ! i5]"
      by (rule itertools_product_five_nth[OF i])
    finally show "?combos ! ?idx = with_placeholder q1 ! i1 @ with_placeholder q2 ! i2 @
        with_placeholder q3 ! i3 @ with_placeholder q4 ! i4 @ with_placeholder q5 ! i5"
      by simp
  qed
  show ?thesis by (rule exI[of _ ?combos]) (intro conjI b len rows nth ph)
qed

text \<open>
  The theorem at five small inputs with 1, 0, 2, 1 and 2 candidates: four rows, the last
  of which takes the second candidate of channels 3 and 5.
\<close>

theorem build_mixbin_combos_witness:
  "collect_candidates example_led1 = Inr [[1, 2, 0, 0]] \<and>
   collect_candidates example_led2 = Inr [] \<and>
   collect_candidates example_led3 = Inr [[3, 0, 0, 0], [4, 0, 0, 0]] \<and>
   collect_candidates example_led4 = Inr [[7, 7, 7, 7]] \<and>
   collect_candidates example_led5 = Inr [[1, 0, 0, 0], [2, 0, 0, 0]] \<and>
   build_mixbin_combos (Some example_led1) (Some example_led2) (Some example_led3)
       (Some example_led4) (Some example_led5) =
     Inr [[1, 2, 0, 0, 0, 0, 0, 0, 3, 0, 0, 0, 7, 7, 7, 7, 1, 0, 0, 0],
          [1, 2, 0, 0, 0, 0, 0, 0, 3, 0, 0, 0, 7, 7, 7, 7, 2, 0, 0, 0],
          [1, 2, 0, 0, 0, 0, 0, 0, 4, 0, 0, 0, 7, 7, 7, 7, 1, 0, 0, 0],
          [1, 2, 0, 0, 0, 0, 0, 0, 4, 0, 0, 0, 7, 7, 7, 7, 2, 0, 0, 0]] \<and>
   (\<exists>combos.
     build_mixbin_combos (Some example_led1) (Some example_led2) (Some example_led3)
       (Some example_led4) (Some example_led5) = Inr combos \<and>
     length combos = 1 * 1 * 2 * 1 * 2 \<and>
     (\<forall>row \<in> set combos. length row = 20) \<and>
     combos ! ((((0 * 1 + 0) * 2 + 1) * 1 + 0) * 2 + 1)
        = [1, 2, 0, 0] @ [0, 0, 0, 0] @ [4, 0, 0, 0] @ [7, 7, 7, 7] @ [2, 0, 0, 0])"
proof -
  have q: "collect_candidates example_led1 = Inr [[1, 2, 0, 0]]"
    "collect_candidates example_led2 = Inr []"
    "collect_candidates example_led3 = Inr [[3, 0, 0, 0], [4, 0, 0, 0]]"
    "collect_candidates example_led4 = Inr [[7, 7, 7, 7]]"
    "collect_candidates example_led5 = Inr [[1, 0, 0, 0], [2, 0, 0, 0]]"
    by (simp_all add: collect_candidates_def read_first5_rows_4cols_def pad_first4_def
        is_all_zero_def example_led1_def example_led2_def example_led3_def example_led4_def
        example_led5_def eval_nat_numeral)
  have ev: "build_mixbin_combos (Some example_led1) (Some example_led2) (Some example_led3)
       (Some example_led4) (Some example_led5) =
     Inr [[1, 2, 0, 0, 0, 0, 0, 0, 3, 0, 0, 0, 7, 7, 7, 7, 1, 0, 0, 0],
          [1, 2, 0, 0, 0, 0, 0, 0, 3, 0, 0, 0, 7, 7, 7, 7, 2, 0, 0, 0],
          [1, 2, 0, 0, 0, 0, 0, 0, 4, 0, 0, 0, 7, 7, 7, 7, 1, 0, 0, 0],
          [1, 2, 0, 0, 0, 0, 0, 0, 4, 0, 0, 0, 7, 7, 7, 7, 2, 0, 0, 0]]"
    by (simp add: build_mixbin_combos_def q with_placeholder_def)
  from build_mixbin_combos_cartesian[OF q] obtain combos where c:
    "build_mixbin_combos (Some example_led1) (Some example_led2) (Some example_led3)
       (Some example_led4) (Some example_led5) = Inr combos"
    "length combos = 1 * 1 * 2 * 1 * 2"
    "\<forall>row \<in> set combos. length row = 20"
    "\<forall>i1 i2 i3 i4 i5.
        i1 < length (with_placeholder [[1, 2, 0, 0 :: real]]) \<and> i2 < length (with_placeholder []) \<and>
        i3 < length (with_placeholder [[3, 0, 0, 0 :: real], [4, 0, 0, 0]]) \<and>
        i4 < length (with_placeholder [[7, 7, 7, 7 :: real]]) \<and>
        i5 < length (with_placeholder [[1, 0, 0, 0 :: real], [2, 0, 0, 0]]) \<longrightarrow>
        combos ! ((((i1 * length (with_placeholder []) + i2)
                      * length (with_placeholder [[3, 0, 0, 0 :: real], [4, 0, 0, 0]]) + i3)
                     * length (with_placeholder [[7, 7, 7, 7 :: real]]) + i4)
                     * length (with_placeholder [[1, 0, 0, 0 :: real], [2, 0, 0, 0]]) + i5)
          = with_placeholder [[1, 2, 0, 0]] ! i1 @ with_placeholder [] ! i2 @
            with_placeholder [[3, 0, 0, 0], [4, 0, 0, 0]] ! i3 @
            with_placeholder [[7, 7, 7, 7]] ! i4 @ with_placeholder [[1, 0, 0, 0], [2, 0, 0, 0]] ! i5"
    by auto
  from c(4)[rule_format, of 0 0 1 0 1]
  have n: "combos ! ((((0 * 1 + 0) * 2 + 1) * 1 + 0) * 2 + 1)
        = [1, 2, 0, 0] @ [0, 0, 0, 0] @ [4, 0, 0, 0] @ [7, 7, 7, 7] @ [2, 0, 0, 0]"
    by (simp add: with_placeholder_def numeral_3_eq_3)
  have ex: "\<exists>combos.
     build_mixbin_combos (Some example_led1) (Some example_led2) (Some example_led3)
       (Some example_led4) (Some example_led5) = Inr combos \<and>
     length combos = 1 * 1 * 2 * 1 * 2 \<and>
     (\<forall>row \<in> set combos. length row = 20) \<and>
     combos ! ((((0 * 1 + 0) * 2 + 1) * 1 + 0) * 2 + 1)
        = [1, 2, 0, 0] @ [0, 0, 0, 0] @ [4, 0, 0, 0] @ [7, 7, 7, 7] @ [2, 0, 0, 0]"
    by (rule exI[of _ combos]) (intro conjI c(1,2,3) n)
  show ?thesis by (intro conjI q ev ex)
qed

text \<open>
  Claim C4, evaluated. On a channel input of six rows that each hold a non-zero value,
  only the first five rows become candidates, and five such channels give
  \<open>5 ^ 5 = 3125\<close> combinations, not \<open>6 ^ 5 = 7776\<close>.
\<close>

theorem sixth_mix_row_is_not_read:
  "length six_mix_rows = 6 \<and>
   list_all (\<lambda>row. list_ex (\<lambda>c. c \<noteq> Blank \<and> c \<noteq> Num 0 \<and> c \<noteq> NonNumeric) (take 4 row))
     six_mix_rows \<and>
   collect_candidates six_mix_rows =
     Inr [[1, 0, 0, 0], [2, 0, 0, 0], [3, 0, 0, 0], [4, 0, 0, 0], [5, 0, 0, 0]] \<and>
   (\<exists>combos. build_mixbin_combos (Some six_mix_rows) (Some six_mix_rows) (Some six_mix_rows)
        (Some six_mix_rows) (Some six_mix_rows) = Inr combos \<and> length combos = 3125) \<and>
   (3125 :: nat) = 5 ^ 5 \<and> (3125 :: nat) < 6 ^ 5"
proof -
  define q :: "real list list" where
    "q = [[1, 0, 0, 0], [2, 0, 0, 0], [3, 0, 0, 0], [4, 0, 0, 0], [5, 0, 0, 0]]"
  have six: "length six_mix_rows = 6"
    "list_all (\<lambda>row. list_ex (\<lambda>c. c \<noteq> Blank \<and> c \<noteq> Num 0 \<and> c \<noteq> NonNumeric) (take 4 row))
       six_mix_rows"
    by (simp_all add: six_mix_rows_def)
  have cq: "collect_candidates six_mix_rows = Inr q"
    by (simp add: collect_candidates_def read_first5_rows_4cols_def pad_first4_def
        is_all_zero_def six_mix_rows_def eval_nat_numeral q_def)
  note b = build_mixbin_combos_eq[OF cq cq cq cq cq]
  have l: "length (with_placeholder q) = 5" by (simp add: length_with_placeholder q_def)
  have n: "length (map concat (itertools_product
       [with_placeholder q, with_placeholder q, with_placeholder q,
        with_placeholder q, with_placeholder q])) = 3125"
    by (simp only: length_map length_itertools_product list.map prod_list.Cons prod_list.Nil l)
  have ex: "\<exists>combos. build_mixbin_combos (Some six_mix_rows) (Some six_mix_rows) (Some six_mix_rows)
        (Some six_mix_rows) (Some six_mix_rows) = Inr combos \<and> length combos = 3125"
    by (rule exI, rule conjI, rule b, rule n)
  have ar: "(3125 :: nat) = 5 ^ 5" "(3125 :: nat) < 6 ^ 5" by simp_all
  show ?thesis by (intro conjI six cq[unfolded q_def] ex ar)
qed

section \<open>Combination normalizer: proofs\<close>






















lemma py_round6_zero [simp]: "py_round6 0 = 0"
  by (simp add: py_round6_def round_half_even_def)







































section \<open>Linear interpolation: proofs\<close>

text \<open>
  The rounding \<open>b64\<close> at the values that occur when the points \<open>(10, 1.1)\<close>,
  \<open>(20, 2.9)\<close>, \<open>(30, 3.0)\<close> are interpolated at 20; the fractions are the exact values
  of the doubles.
\<close>

lemma bitlen_eqI:
  assumes "0 < w" "2 ^ (nat w - 1) \<le> x" "x < 2 ^ nat w"
  shows "bitlen x = w"
proof (rule antisym)
  show "bitlen x \<le> w" using assms by (simp add: bitlen_le_iff_power)
  show "w \<le> bitlen x" using assms by (simp add: bitlen_ge_iff_power)
qed

lemma b64_ge1:
  assumes "1 \<le> x" "bitlen \<lfloor>x\<rfloor> = w" "w \<le> 53"
  shows "b64 x = of_int (round_half_even (x * 2 ^ nat (53 - w))) / 2 ^ nat (53 - w)"
proof (cases "w = 53")
  case True
  with assms show ?thesis by (simp add: b64_def Let_def)
next
  case False
  with assms(3) have "w < 53" by simp
  then have "\<not> 0 \<le> w - 1 - 52" "nat (- (w - 1 - 52)) = nat (53 - w)" by simp_all
  with assms(1,2) show ?thesis by (simp add: b64_def Let_def)
qed

lemma b64_11_10: "b64 (11 / 10) = 2476979795053773 / 2251799813685248"
proof -
  have "bitlen \<lfloor>11 / 10 :: real\<rfloor> = 1" by (rule bitlen_eqI) simp_all
  from b64_ge1[OF _ this] show ?thesis by (simp add: round_half_even_def)
qed

lemma b64_29_10: "b64 (29 / 10) = 6530219459687219 / 2251799813685248"
proof -
  have "bitlen \<lfloor>29 / 10 :: real\<rfloor> = 2" by (rule bitlen_eqI) simp_all
  from b64_ge1[OF _ this] show ?thesis by (simp add: round_half_even_def)
qed

lemma b64_diff:
  "b64 (6530219459687219 / 2251799813685248 - 2476979795053773 / 2251799813685248)
     = 2026619832316723 / 1125899906842624"
proof -
  have "bitlen \<lfloor>6530219459687219 / 2251799813685248 - 2476979795053773 / 2251799813685248 :: real\<rfloor> = 1"
    by (rule bitlen_eqI) simp_all
  from b64_ge1[OF _ this] show ?thesis by (simp add: round_half_even_def)
qed

lemma b64_10: "b64 10 = 10"
proof -
  have "bitlen \<lfloor>10 :: real\<rfloor> = 4" by (rule bitlen_eqI) simp_all
  from b64_ge1[OF _ this] show ?thesis by (simp add: round_half_even_def)
qed

lemma b64_prod: "b64 (2026619832316723 / 1125899906842624 * 10) = 18"
proof -
  have "bitlen \<lfloor>2026619832316723 / 1125899906842624 * 10 :: real\<rfloor> = 5"
    by (rule bitlen_eqI) simp_all
  from b64_ge1[OF _ this] show ?thesis by (simp add: round_half_even_def)
qed

lemma b64_quot: "b64 (18 / 10) = 8106479329266893 / 4503599627370496"
proof -
  have "bitlen \<lfloor>18 / 10 :: real\<rfloor> = 1" by (rule bitlen_eqI) simp_all
  from b64_ge1[OF _ this] show ?thesis by (simp add: round_half_even_def)
qed

lemma b64_sum:
  "b64 (2476979795053773 / 2251799813685248 + 8106479329266893 / 4503599627370496)
     = 1632554864921805 / 562949953421312"
proof -
  have "bitlen \<lfloor>2476979795053773 / 2251799813685248 + 8106479329266893 / 4503599627370496 :: real\<rfloor> = 2"
    by (rule bitlen_eqI) simp_all
  from b64_ge1[OF _ this] show ?thesis by (simp add: round_half_even_def)
qed

lemma interior_knot_of_three:
  "linear_interpolation fl [10, 20, 30] [a, b, c] 20 =
     (if fl (20 - 10) = 0 then Inl ZeroDivisionError
      else Inr (fl (a + fl (fl (fl (b - a) * fl (20 - 10)) / fl (20 - 10)))))"
  by (simp add: linear_interpolation_def interpolate_def Let_def)

lemma float_interior_knot:
  "linear_interpolation b64 [10, 20, 30] [b64 (11 / 10), b64 (29 / 10), 3] 20
     = Inr (1632554864921805 / 562949953421312)"
proof -
  have t: "b64 (20 - 10) = 10" using b64_10 by simp
  have d: "b64 (b64 (29 / 10) - b64 (11 / 10)) = 2026619832316723 / 1125899906842624"
    by (simp only: b64_11_10 b64_29_10 b64_diff)
  have m: "b64 (b64 (b64 (29 / 10) - b64 (11 / 10)) * 10) = 18"
    by (simp only: d) (simp only: b64_prod)
  have q: "b64 (b64 (b64 (b64 (29 / 10) - b64 (11 / 10)) * 10) / 10)
      = 8106479329266893 / 4503599627370496"
    by (simp only: m) (simp only: b64_quot)
  have r: "b64 (b64 (11 / 10) + b64 (b64 (b64 (b64 (29 / 10) - b64 (11 / 10)) * 10) / 10))
      = 1632554864921805 / 562949953421312"
    by (simp only: q) (simp only: b64_11_10 b64_sum)
  show ?thesis unfolding interior_knot_of_three t unfolding r by simp
qed

lemma bracket_search_at:
  assumes "Suc i < length pts" "sorted (map fst pts)"
    "fst (pts ! i) < t" "t \<le> fst (pts ! Suc i)"
  shows "bracket_search fl pts t = interpolate fl (pts ! i) (pts ! Suc i) t"
  using assms
proof (induction i arbitrary: pts)
  case 0
  then obtain p1 p2 rest where p: "pts = p1 # p2 # rest"
    by (cases pts; cases "tl pts") auto
  with 0 show ?case by simp
next
  case (Suc i)
  then obtain p1 p2 rest where p: "pts = p1 # p2 # rest"
    by (cases pts; cases "tl pts") auto
  have mono: "map fst pts ! 1 \<le> map fst pts ! Suc i"
    using Suc.prems(1,2) by (intro sorted_nth_mono) simp_all
  have e1: "map fst pts ! 1 = fst p2" using p by simp
  have e2: "map fst pts ! Suc i = fst (pts ! Suc i)"
    by (rule nth_map) (use Suc.prems(1) in simp)
  have "fst p2 \<le> fst (pts ! Suc i)" using mono unfolding e1 e2 .
  with Suc.prems(3) have nb: "\<not> t \<le> fst p2" by simp
  have rec: "bracket_search fl (p2 # rest) t = interpolate fl ((p2 # rest) ! i) ((p2 # rest) ! Suc i) t"
    using Suc.prems p by (intro Suc.IH) auto
  show ?case using nb rec p by simp
qed

lemma interpolate_exact:
  assumes "fst p1 \<noteq> fst p2"
  shows "interpolate (\<lambda>v. v) p1 p2 t =
     Inr (snd p1 + (snd p2 - snd p1) * (t - fst p1) / (fst p2 - fst p1))"
  using assms by (cases p1; cases p2) (simp add: interpolate_def)

lemma interpolate_exact_at_knot:
  assumes "fst p1 \<noteq> fst p2"
  shows "interpolate (\<lambda>v. v) p1 p2 (fst p2) = Inr (snd p2)"
  using assms by (simp add: interpolate_exact)

lemma interior_value:
  assumes pts: "pts = sort_key fst (zip x_data y_data)"
    and i: "Suc i < length pts" "fst (pts ! i) < t" "t \<le> fst (pts ! Suc i)" "t < fst (last pts)"
  shows "linear_interpolation fl x_data y_data t = interpolate fl (pts ! i) (pts ! Suc i) t"
proof -
  have srt: "sorted (map fst pts)" unfolding pts by (rule sorted_sort_key)
  have ne: "pts \<noteq> []" using i(1) by auto
  have "fst (hd pts) \<le> fst (pts ! i)"
    using sorted_nth_mono[OF srt, of 0 i] i(1) ne by (simp add: hd_conv_nth)
  with i(2) have a: "\<not> t \<le> fst (hd pts)" by simp
  have b: "\<not> fst (last pts) \<le> t" using i(4) by simp
  show ?thesis
    using ne a b bracket_search_at[OF i(1) srt i(2,3), of fl]
    by (simp add: linear_interpolation_def Let_def pts[symmetric])
qed

text \<open>
  Claim C9, as amended. Let \<open>pts\<close> be the non-empty list of points sorted by \<open>x\<close>. A target
  at or below the smallest \<open>x\<close> returns the stored \<open>y\<close> of the first point, and a target
  above it and at or above the largest \<open>x\<close> returns the stored \<open>y\<close> of the last point, both
  with no arithmetic, whatever the rounding. A target with \<open>x[i] < target \<le> x[i+1]\<close>
  below the largest \<open>x\<close> returns the interpolation formula on that pair: in exact
  arithmetic the exact linear interpolation. When the \<open>x\<close> are pairwise distinct, a target
  equal to any knot returns that knot's \<open>y\<close> in exact arithmetic (for an interior knot
  through the formula, hence up to rounding in floating point).
\<close>

theorem linear_interpolation_clamps_and_interpolates:
  assumes pts: "pts = sort_key fst (zip x_data y_data)" and ne: "pts \<noteq> []"
  shows
   "(x_target \<le> fst (hd pts) \<longrightarrow>
       linear_interpolation fl x_data y_data x_target = Inr (snd (hd pts))) \<and>
    (fst (hd pts) < x_target \<and> fst (last pts) \<le> x_target \<longrightarrow>
       linear_interpolation fl x_data y_data x_target = Inr (snd (last pts))) \<and>
    (\<forall>i. Suc i < length pts \<and> fst (pts ! i) < x_target \<and> x_target \<le> fst (pts ! Suc i) \<and>
         x_target < fst (last pts) \<longrightarrow>
       linear_interpolation fl x_data y_data x_target =
         interpolate fl (pts ! i) (pts ! Suc i) x_target \<and>
       linear_interpolation (\<lambda>v. v) x_data y_data x_target =
         Inr (snd (pts ! i) + (snd (pts ! Suc i) - snd (pts ! i)) * (x_target - fst (pts ! i))
                / (fst (pts ! Suc i) - fst (pts ! i)))) \<and>
    (sorted_wrt (<) (map fst pts) \<longrightarrow>
       (\<forall>k<length pts. linear_interpolation (\<lambda>v. v) x_data y_data (fst (pts ! k)) = Inr (snd (pts ! k))))"
proof (intro conjI impI allI)
  assume "x_target \<le> fst (hd pts)"
  then show "linear_interpolation fl x_data y_data x_target = Inr (snd (hd pts))"
    using ne by (simp add: linear_interpolation_def Let_def pts[symmetric])
next
  assume "fst (hd pts) < x_target \<and> fst (last pts) \<le> x_target"
  then show "linear_interpolation fl x_data y_data x_target = Inr (snd (last pts))"
    using ne by (simp add: linear_interpolation_def Let_def pts[symmetric])
next
  fix i
  assume a: "Suc i < length pts \<and> fst (pts ! i) < x_target \<and> x_target \<le> fst (pts ! Suc i) \<and>
         x_target < fst (last pts)"
  then show "linear_interpolation fl x_data y_data x_target =
         interpolate fl (pts ! i) (pts ! Suc i) x_target"
    using interior_value[OF pts] by blast
next
  fix i
  assume a: "Suc i < length pts \<and> fst (pts ! i) < x_target \<and> x_target \<le> fst (pts ! Suc i) \<and>
         x_target < fst (last pts)"
  then have "fst (pts ! i) \<noteq> fst (pts ! Suc i)" by auto
  from interpolate_exact[OF this, of x_target] a interior_value[OF pts, of i x_target "\<lambda>v. v"]
  show "linear_interpolation (\<lambda>v. v) x_data y_data x_target =
         Inr (snd (pts ! i) + (snd (pts ! Suc i) - snd (pts ! i)) * (x_target - fst (pts ! i))
                / (fst (pts ! Suc i) - fst (pts ! i)))"
    by simp
next
  fix k
  assume strict: "sorted_wrt (<) (map fst pts)" and k: "k < length pts"
  have less: "\<And>a b. a < b \<Longrightarrow> b < length pts \<Longrightarrow> fst (pts ! a) < fst (pts ! b)"
    using sorted_wrt_nth_less[OF strict] by simp
  show "linear_interpolation (\<lambda>v. v) x_data y_data (fst (pts ! k)) = Inr (snd (pts ! k))"
  proof (cases "k = 0")
    case True
    then show ?thesis
      using ne by (simp add: linear_interpolation_def Let_def pts[symmetric] hd_conv_nth)
  next
    case False
    then have hd_less: "fst (hd pts) < fst (pts ! k)"
      using less[of 0 k] k ne by (simp add: hd_conv_nth)
    show ?thesis
    proof (cases "Suc k = length pts")
      case True
      then have "length pts - 1 = k" by simp
      then have "last pts = pts ! k" using ne last_conv_nth[of pts] by simp
      then show ?thesis
        using ne hd_less by (simp add: linear_interpolation_def Let_def pts[symmetric])
    next
      case last: False
      with k have kl: "k < length pts - 1" by simp
      then have lt_last: "fst (pts ! k) < fst (last pts)"
        using less[of k "length pts - 1"] ne by (simp add: last_conv_nth)
      obtain i where i: "k = Suc i" using False by (cases k) auto
      have prev: "fst (pts ! i) < fst (pts ! Suc i)" using less[of i "Suc i"] k i by simp
      have "linear_interpolation (\<lambda>v. v) x_data y_data (fst (pts ! Suc i)) =
          interpolate (\<lambda>v. v) (pts ! i) (pts ! Suc i) (fst (pts ! Suc i))"
        using k i prev lt_last by (intro interior_value[OF pts]) simp_all
      also have "\<dots> = Inr (snd (pts ! Suc i))"
        using prev by (intro interpolate_exact_at_knot) simp
      finally show ?thesis using i by simp
    qed
  qed
qed

text \<open>
  The theorem at the points \<open>(10, 1)\<close>, \<open>(30, 4)\<close>, \<open>(20, 3)\<close> in exact arithmetic: the
  targets 5 and 35 are clamped to 1 and 4, the target 15 gives 2, the knot 20 gives 3.
\<close>

theorem linear_interpolation_witness:
  "example_points = sort_key fst (zip [10, 30, 20] [1, 4, 3]) \<and> example_points \<noteq> [] \<and>
   5 \<le> fst (hd example_points) \<and>
   linear_interpolation (\<lambda>v. v) [10, 30, 20] [1, 4, 3] 5 = Inr (snd (hd example_points)) \<and>
   snd (hd example_points) = 1 \<and>
   (fst (hd example_points) < 35 \<and> fst (last example_points) \<le> 35) \<and>
   linear_interpolation (\<lambda>v. v) [10, 30, 20] [1, 4, 3] 35 = Inr (snd (last example_points)) \<and>
   snd (last example_points) = 4 \<and>
   (Suc 0 < length example_points \<and> fst (example_points ! 0) < 15 \<and>
      15 \<le> fst (example_points ! Suc 0) \<and> 15 < fst (last example_points)) \<and>
   linear_interpolation (\<lambda>v. v) [10, 30, 20] [1, 4, 3] 15 =
     Inr (snd (example_points ! 0) + (snd (example_points ! Suc 0) - snd (example_points ! 0))
            * (15 - fst (example_points ! 0)) / (fst (example_points ! Suc 0) - fst (example_points ! 0))) \<and>
   linear_interpolation (\<lambda>v. v) [10, 30, 20] [1, 4, 3] 15 = Inr 2 \<and>
   sorted_wrt (<) (map fst example_points) \<and> (1 :: nat) < length example_points \<and>
   linear_interpolation (\<lambda>v. v) [10, 30, 20] [1, 4, 3] (fst (example_points ! 1))
     = Inr (snd (example_points ! 1)) \<and>
   fst (example_points ! 1) = 20 \<and> snd (example_points ! 1) = 3"
proof -
  have p: "example_points = sort_key fst (zip [10, 30, 20] [1, 4, 3])"
    and ne: "example_points \<noteq> []" by (simp_all add: example_points_def)
  have h1: "5 \<le> fst (hd example_points)" by (simp add: example_points_def)
  have h2: "fst (hd example_points) < 35 \<and> fst (last example_points) \<le> 35"
    by (simp add: example_points_def)
  have h3: "Suc 0 < length example_points \<and> fst (example_points ! 0) < 15 \<and>
      15 \<le> fst (example_points ! Suc 0) \<and> 15 < fst (last example_points)"
    by (simp add: example_points_def)
  have h4: "sorted_wrt (<) (map fst example_points)" "(1 :: nat) < length example_points"
    by (simp_all add: example_points_def)
  have v: "snd (hd example_points) = 1" "snd (last example_points) = 4"
    "fst (example_points ! 1) = 20" "snd (example_points ! 1) = 3"
    by (simp_all add: example_points_def)
  note t = linear_interpolation_clamps_and_interpolates[OF p ne]
  note t1 = t[where x_target = 5 and fl = "\<lambda>v. v", THEN conjunct1, THEN mp, OF h1]
  note t2 = t[where x_target = 35 and fl = "\<lambda>v. v", THEN conjunct2, THEN conjunct1, THEN mp, OF h2]
  note t3 = t[where x_target = 15 and fl = "\<lambda>v. v", THEN conjunct2, THEN conjunct2, THEN conjunct1,
      THEN spec, THEN mp, OF h3, THEN conjunct2]
  note t4 = t[where x_target = 0 and fl = "\<lambda>v. v", THEN conjunct2, THEN conjunct2, THEN conjunct2,
      THEN mp, OF h4(1), THEN spec, THEN mp, OF h4(2)]
  have t3': "linear_interpolation (\<lambda>v. v) [10, 30, 20] [1, 4, 3] 15 = Inr 2"
    unfolding t3 by (simp add: example_points_def)
  show ?thesis by (intro conjI p ne h1 t1 v h2 t2 h3 t3 t3' h4 t4)
qed

text \<open>
  Claim C9 as stated fails twice. With the points \<open>(1, 5)\<close> and \<open>(1, 7)\<close> the target 1
  equals the \<open>x\<close> of the knot \<open>(1, 7)\<close> and the result is 5. With the float points
  \<open>(10, 1.1)\<close>, \<open>(20, 2.9)\<close>, \<open>(30, 3.0)\<close> the target 20 is an interior knot and the
  result is the double \<open>2.9000000000000004\<close>, not the knot's \<open>2.9\<close>.
\<close>

theorem knot_value_not_returned_counterexample:
  "(1, 7) \<in> set (zip [1, 1] [5, 7 :: real]) \<and>
   linear_interpolation (\<lambda>v. v) [1, 1] [5, 7] 1 = Inr 5 \<and>
   (5 :: real) \<noteq> 7 \<and>
   b64 (11 / 10) = 2476979795053773 / 2251799813685248 \<and>
   b64 (29 / 10) = 6530219459687219 / 2251799813685248 \<and>
   linear_interpolation b64 [10, 20, 30] [b64 (11 / 10), b64 (29 / 10), 3] 20
     = Inr (1632554864921805 / 562949953421312) \<and>
   (1632554864921805 / 562949953421312 :: real) \<noteq> 6530219459687219 / 2251799813685248"
proof -
  have a: "(1, 7) \<in> set (zip [1, 1] [5, 7 :: real])" by simp
  have b: "linear_interpolation (\<lambda>v. v) [1, 1] [5, 7] 1 = Inr 5"
    by (simp add: linear_interpolation_def)
  have c: "(5 :: real) \<noteq> 7"
    "(1632554864921805 / 562949953421312 :: real) \<noteq> 6530219459687219 / 2251799813685248"
    by simp_all
  show ?thesis by (intro conjI a b c b64_11_10 b64_29_10 float_interior_knot)
qed

section \<open>Monte Carlo voltage simulator: proofs\<close>

lemma length_file_order: "length file_order = 20"
  by (simp add: file_order_def upt_rec)

lemma length_load_bin_data: "length (load_bin_data_memory_efficient step6_dir) = 20"
  by (simp add: load_bin_data_memory_efficient_def length_file_order)

lemma absent_bin_is_zero_population:
  assumes "k < 20" "step6_dir (file_order ! k) = Absent"
  shows "load_bin_data_memory_efficient step6_dir ! k = [0]"
  using assms by (simp add: load_bin_data_memory_efficient_def length_file_order load_bin_file_def)

lemma run_trials_without_stop_check:
  "fst (run_trials rng None bin_data_list combo sims st) = False"
  by (induction sims arbitrary: st) (simp_all add: stop_requested_def split: prod.splits)

lemma run_combos_without_stop_check:
  "fst (run_combos rng None bin_data_list simulation_count combos st) = False"
proof (induction combos arbitrary: st)
  case Nil
  show ?case by simp
next
  case (Cons c combos)
  obtain combo_idx combo where c: "c = (combo_idx, combo)" by (cases c)
  obtain stopped st2 where r: "run_trials rng None bin_data_list combo [0..<nat simulation_count]
        (st\<lparr>written := (combo_idx, []) # written st\<rparr>) = (stopped, st2)"
    by (cases "run_trials rng None bin_data_list combo [0..<nat simulation_count]
        (st\<lparr>written := (combo_idx, []) # written st\<rparr>)")
  have "stopped = False" using run_trials_without_stop_check[of rng bin_data_list combo
        "[0..<nat simulation_count]" "st\<lparr>written := (combo_idx, []) # written st\<rparr>"] r by simp
  then show ?case using c r Cons.IH[of st2] by (simp add: stop_requested_def)
qed

lemma run_completes_without_stop_check:
  assumes "step6_dir combos_file_name = Present nbytes rows" "read_combos rows \<noteq> []"
  shows "fst (run_monte_carlo_simulation step6_dir rng simulation_count None st) =
     (True, SimulationCompleted (length (read_combos rows)) simulation_count)"
proof -
  let ?b = "load_bin_data_memory_efficient step6_dir"
  obtain stopped st' where r: "run_combos rng None ?b simulation_count
       (enumerate 1 (read_combos rows)) st = (stopped, st')"
    by (cases "run_combos rng None ?b simulation_count (enumerate 1 (read_combos rows)) st")
  have "stopped = False"
    using run_combos_without_stop_check[of rng ?b simulation_count "enumerate 1 (read_combos rows)" st] r
    by simp
  then show ?thesis
    using assms r by (simp add: run_monte_carlo_simulation_def Let_def length_load_bin_data)
qed

text \<open>
  Claim C6, as amended. When the combination file is absent, the run returns failure
  with the message that names the missing file, before any draw, poll or output. The
  loader always returns 20 populations, and a population file that is absent is replaced
  by the default population \<open>[0.0]\<close>. When the combination file is present with at least
  one row that parses and no \<open>stop_check\<close> is given, the run reports success for every
  combination, whichever population files are absent.
\<close>

theorem missing_inputs_of_the_monte_carlo_run:
  "(step6_dir combos_file_name = Absent \<longrightarrow>
      run_monte_carlo_simulation step6_dir rng simulation_count stop_check st =
        ((False, CombosFileMissing), st)) \<and>
   length (load_bin_data_memory_efficient step6_dir) = 20 \<and>
   (\<forall>k<20. step6_dir (file_order ! k) = Absent \<longrightarrow>
      load_bin_data_memory_efficient step6_dir ! k = [0]) \<and>
   (\<forall>nbytes rows. step6_dir combos_file_name = Present nbytes rows \<and> read_combos rows \<noteq> [] \<longrightarrow>
      fst (run_monte_carlo_simulation step6_dir rng simulation_count None st) =
        (True, SimulationCompleted (length (read_combos rows)) simulation_count))"
proof (intro conjI impI allI)
  assume "step6_dir combos_file_name = Absent"
  then show "run_monte_carlo_simulation step6_dir rng simulation_count stop_check st =
        ((False, CombosFileMissing), st)"
    by (simp add: run_monte_carlo_simulation_def)
next
  show "length (load_bin_data_memory_efficient step6_dir) = 20" by (rule length_load_bin_data)
next
  fix k :: nat assume "k < 20" "step6_dir (file_order ! k) = Absent"
  then show "load_bin_data_memory_efficient step6_dir ! k = [0]"
    by (rule absent_bin_is_zero_population)
next
  fix nbytes rows
  assume "step6_dir combos_file_name = Present nbytes rows \<and> read_combos rows \<noteq> []"
  then show "fst (run_monte_carlo_simulation step6_dir rng simulation_count None st) =
        (True, SimulationCompleted (length (read_combos rows)) simulation_count)"
    using run_completes_without_stop_check by blast
qed

lemma only_combos_present_files:
  "only_combos_present combos_file_name =
     Present 60 [map Num [1, 1/2, 0, 0, 0, 0, 0, 0, 1, 0, 0, 0, 0, 0, 0, 0, 0, 0, 0, 0]]"
  "k < 20 \<Longrightarrow> only_combos_present (file_order ! k) = Absent"
proof -
  show "only_combos_present combos_file_name =
     Present 60 [map Num [1, 1/2, 0, 0, 0, 0, 0, 0, 1, 0, 0, 0, 0, 0, 0, 0, 0, 0, 0, 0]]"
    by (simp add: only_combos_present_def)
  have "\<forall>name \<in> set file_order. name \<noteq> combos_file_name"
    by (simp add: file_order_def upt_rec bin_file_name_def digit_def combos_file_name_def)
  moreover assume "k < 20"
  ultimately have "file_order ! k \<noteq> combos_file_name"
    using length_file_order by (metis nth_mem)
  then show "only_combos_present (file_order ! k) = Absent"
    by (simp add: only_combos_present_def)
qed

text \<open>
  The theorem at the empty directory and at the directory with only the combination file.
\<close>

theorem missing_inputs_witness:
  "(\<lambda>name. Absent) combos_file_name = Absent \<and>
   run_monte_carlo_simulation (\<lambda>name. Absent) (\<lambda>n. n) 2 None initial_state =
     ((False, CombosFileMissing), initial_state) \<and>
   (0 :: nat) < 20 \<and> only_combos_present (file_order ! 0) = Absent \<and>
   load_bin_data_memory_efficient only_combos_present ! 0 = [0] \<and>
   (only_combos_present combos_file_name =
      Present 60 [map Num [1, 1/2, 0, 0, 0, 0, 0, 0, 1, 0, 0, 0, 0, 0, 0, 0, 0, 0, 0, 0]] \<and>
    read_combos [map Num [1, 1/2, 0, 0, 0, 0, 0, 0, 1, 0, 0, 0, 0, 0, 0, 0, 0, 0, 0, 0]] \<noteq> []) \<and>
   fst (run_monte_carlo_simulation only_combos_present (\<lambda>n. n) 2 None initial_state) =
     (True, SimulationCompleted
        (length (read_combos [map Num [1, 1/2, 0, 0, 0, 0, 0, 0, 1, 0, 0, 0, 0, 0, 0, 0, 0, 0, 0, 0]])) 2)"
proof -
  have a: "(\<lambda>name :: string. Absent) combos_file_name = Absent" by simp
  have n: "(0 :: nat) < 20" by simp
  have b: "only_combos_present (file_order ! 0) = Absent"
    by (rule only_combos_present_files(2)) simp
  have c: "only_combos_present combos_file_name =
      Present 60 [map Num [1, 1/2, 0, 0, 0, 0, 0, 0, 1, 0, 0, 0, 0, 0, 0, 0, 0, 0, 0, 0]] \<and>
    read_combos [map Num [1, 1/2, 0, 0, 0, 0, 0, 0, 1, 0, 0, 0, 0, 0, 0, 0, 0, 0, 0, 0]] \<noteq> []"
    by (simp add: only_combos_present_files(1) read_combos_def)
  note t1 = missing_inputs_of_the_monte_carlo_run[where step6_dir = "\<lambda>name. Absent" and rng = "\<lambda>n. n"
      and simulation_count = 2 and stop_check = None and st = initial_state,
      THEN conjunct1, THEN mp, OF a]
  note t2 = missing_inputs_of_the_monte_carlo_run[where step6_dir = only_combos_present,
      THEN conjunct2, THEN conjunct2, THEN conjunct1, THEN spec, THEN mp, OF n, THEN mp, OF b]
  note t3 = missing_inputs_of_the_monte_carlo_run[where step6_dir = only_combos_present
      and rng = "\<lambda>n. n" and simulation_count = 2 and st = initial_state,
      THEN conjunct2, THEN conjunct2, THEN conjunct2, THEN spec, THEN spec, THEN mp, OF c]
  show ?thesis by (intro conjI a t1 n b t2 c[THEN conjunct1] c[THEN conjunct2] t3)
qed

text \<open>
  Claim C6 as stated fails at the directory that holds the combination file and none of
  the 20 population files: a run of two trials reports success and writes the output
  \<open>[0, 0]\<close> for combination 1.
\<close>

theorem missing_populations_do_not_fail_counterexample:
  "only_combos_present combos_file_name \<noteq> Absent \<and>
   list_all (\<lambda>filename. only_combos_present filename = Absent) file_order \<and>
   length file_order = 20 \<and>
   run_monte_carlo_simulation only_combos_present (\<lambda>n. n) 2 None initial_state =
     ((True, SimulationCompleted 1 2), \<lparr>draws = 6, polls = 0, written = [(1, [0, 0])]\<rparr>)"
  by code_simp

section \<open>Highest-density interval: proofs\<close>

lemma ieee_not_NaN [simp]: "ieee x \<noteq> NaN" "win_span s k i \<noteq> NaN"
  by (simp_all add: ieee_def win_span_def)





















lemma win_span_one [simp]: "win_span s 1 i = Finite 0" "win_span s (Suc 0) i = Finite 0"
  by (simp_all add: win_span_def ieee_def)



















end
